theory Spec2Isabelle
  imports Complex_Main
begin

section \<open>Virtual Drawing Board: the stroke ledger and the frame loop\<close>

text \<open>
  The repository holds two variants of the drawing board. \<^verbatim>\<open>src/VirtualDrawingBoard/app.py\<close>
  draws while index fingertip and thumb tip are pinched together; \<^verbatim>\<open>src/app.py\<close> draws
  while the index finger is up. The methods \<^verbatim>\<open>add_line\<close>, \<^verbatim>\<open>check_for_new_line\<close>,
  \<^verbatim>\<open>undo\<close>, \<^verbatim>\<open>clear\<close> and \<^verbatim>\<open>toggle_draw\<close> have the same text in both files and are embedded
  once. Methods of the pinch variant carry no suffix or the suffix \<open>_V\<close>, methods that exist
  only in the finger-up variant carry the suffix \<open>_F\<close>.

  Python floats (the normalised landmark coordinates) are embedded as reals: comparisons
  of finite floats are the comparisons of the numbers they denote; the rounding of float
  arithmetic and the values NaN and infinity are not part of the model.
\<close>

subsection \<open>Data\<close>

datatype py_error = IndexError | AttributeError

type_synonym point = "int \<times> int"

type_synonym color = "int \<times> int \<times> int"

text \<open>An entry of a line is the Python list \<^verbatim>\<open>[(x, y), line_thickness, line_color]\<close>.\<close>

type_synonym stroke_point = "point \<times> int \<times> color"

definition position_of :: "stroke_point \<Rightarrow> point" where
  "position_of p = fst p"

definition thickness_of :: "stroke_point \<Rightarrow> int" where
  "thickness_of p = fst (snd p)"

definition color_of :: "stroke_point \<Rightarrow> color" where
  "color_of p = snd (snd p)"

text \<open>\<^verbatim>\<open>tuple(reversed(c))\<close> on a 3-tuple.\<close>

fun reversed :: "color \<Rightarrow> color" where
  "reversed (r, g, b) = (b, g, r)"

text \<open>The two attributes of \<^verbatim>\<open>SettingsWindow\<close> (settings.py) that the video thread reads.\<close>

record settings =
  line_thickness :: int
  line_color :: color

text \<open>
  The attributes of \<^verbatim>\<open>VideoThread\<close>. \<open>index_finger_tip\<close> and \<open>thumb_tip\<close> are the indices
  that \<^verbatim>\<open>__init__\<close> copies from MediaPipe's \<^verbatim>\<open>HandLandmark\<close> enumeration; the finger-up
  variant has no \<open>thumb_tip\<close>, \<open>pinch_tolerance\<close> and \<open>indicator_color\<close> and never reads them.
\<close>

record video_thread =
  run_video_thread :: bool
  index_finger_tip :: nat
  thumb_tip :: nat
  pinch_tolerance :: real
  lines :: "stroke_point list list"
  indicator_color :: color
  draw :: bool

text \<open>\<^verbatim>\<open>VideoThread.__init__\<close>, with the two MediaPipe indices as parameters.\<close>

definition init :: "nat \<Rightarrow> nat \<Rightarrow> video_thread" where
  "init ift tt =
     \<lparr> run_video_thread = True, index_finger_tip = ift, thumb_tip = tt,
       pinch_tolerance = 5 / 100, lines = [[]], indicator_color = (150, 150, 150),
       draw = True \<rparr>"

subsection \<open>The ledger operations\<close>

text \<open>
  \<^verbatim>\<open>self.lines[len(self.lines) - 1]\<close>: on an empty list the index is \<open>-1\<close> and Python
  raises IndexError.
\<close>

definition current_line :: "video_thread \<Rightarrow> py_error + stroke_point list" where
  "current_line s = (if lines s = [] then Inl IndexError else Inr (last (lines s)))"

definition add_line :: "settings \<Rightarrow> video_thread \<Rightarrow> int \<Rightarrow> int \<Rightarrow> py_error + video_thread" where
  "add_line st s x y =
     (case current_line s of
        Inl e \<Rightarrow> Inl e
      | Inr cur \<Rightarrow>
          Inr (s\<lparr>lines := (lines s)[length (lines s) - 1 :=
                    cur @ [((x, y), line_thickness st, line_color st)]]\<rparr>))"

definition check_for_new_line :: "video_thread \<Rightarrow> py_error + video_thread" where
  "check_for_new_line s =
     (case current_line s of
        Inl e \<Rightarrow> Inl e
      | Inr cur \<Rightarrow> Inr (if cur \<noteq> [] then s\<lparr>lines := lines s @ [[]]\<rparr> else s))"

definition clear :: "video_thread \<Rightarrow> video_thread" where
  "clear s = s\<lparr>lines := [[]]\<rparr>"

text \<open>
  \<^verbatim>\<open>self.lines[:-delete_number]\<close> keeps the first \<open>len - delete_number\<close> entries, none when
  \<open>delete_number\<close> exceeds the length.
\<close>

definition undo :: "video_thread \<Rightarrow> py_error + video_thread" where
  "undo s =
     (case current_line s of
        Inl e \<Rightarrow> Inl e
      | Inr cur \<Rightarrow>
          (let delete_number = (if cur \<noteq> [] then 1 else 2 :: nat);
               s1 = s\<lparr>lines := take (length (lines s) - delete_number) (lines s)\<rparr>
           in if lines s1 \<noteq> [] then check_for_new_line s1 else Inr (clear s1)))"

text \<open>The label and button texts that \<^verbatim>\<open>toggle_draw\<close> also sets are not modelled.\<close>

definition toggle_draw :: "video_thread \<Rightarrow> py_error + video_thread" where
  "toggle_draw s = check_for_new_line (s\<lparr>draw := \<not> draw s\<rparr>)"

datatype ledger_op = AddLine settings int int | CheckForNewLine | Undo | Clear

fun apply_op :: "video_thread \<Rightarrow> ledger_op \<Rightarrow> py_error + video_thread" where
  "apply_op s (AddLine st x y) = add_line st s x y"
| "apply_op s CheckForNewLine = check_for_new_line s"
| "apply_op s Undo = undo s"
| "apply_op s Clear = Inr (clear s)"

fun apply_ops :: "video_thread \<Rightarrow> ledger_op list \<Rightarrow> py_error + video_thread" where
  "apply_ops s [] = Inr s"
| "apply_ops s (a # as) =
     (case apply_op s a of Inl e \<Rightarrow> Inl e | Inr s' \<Rightarrow> apply_ops s' as)"

text \<open>At least one stroke, and every stroke but the last is non-empty.\<close>

definition ledger_inv :: "stroke_point list list \<Rightarrow> bool" where
  "ledger_inv l = (l \<noteq> [] \<and> list_all (\<lambda>line. line \<noteq> []) (butlast l))"

text \<open>\<^verbatim>\<open>undo\<close> applied \<open>n\<close> times in a row.\<close>

fun undo_n :: "nat \<Rightarrow> video_thread \<Rightarrow> py_error + video_thread" where
  "undo_n 0 s = Inr s"
| "undo_n (Suc n) s = (case undo s of Inl e \<Rightarrow> Inl e | Inr s' \<Rightarrow> undo_n n s')"

text \<open>The strokes of a ledger that hold at least one point.\<close>

definition completed :: "stroke_point list list \<Rightarrow> stroke_point list list" where
  "completed l = filter (\<lambda>line. line \<noteq> []) l"

subsection \<open>Rendering\<close>

text \<open>
  The calls of \<^verbatim>\<open>cv2.line(image, pt1, pt2, color, thickness)\<close> and
  \<^verbatim>\<open>cv2.circle(image, center, radius, color, thickness)\<close>. An image is embedded as the list
  of the calls made on it since it was created, in the order of the calls.
\<close>

datatype draw_cmd =
  Line point point color int
| Circle point int color int

type_synonym canvas = "draw_cmd list"

text \<open>
  The inner loop of \<^verbatim>\<open>draw_lines\<close>: \<open>i\<close> runs over \<^verbatim>\<open>range(len(line))\<close>, the pass with
  \<open>i = 0\<close> is skipped by \<^verbatim>\<open>continue\<close>, every other pass draws from entry \<open>i - 1\<close> to entry
  \<open>i\<close> with the reversed colour and the thickness of entry \<open>i - 1\<close>.
\<close>

definition draw_line :: "stroke_point list \<Rightarrow> draw_cmd list" where
  "draw_line line =
     map (\<lambda>i. Line (position_of (line ! (i - 1))) (position_of (line ! i))
                 (reversed (color_of (line ! (i - 1)))) (thickness_of (line ! (i - 1))))
       (filter (\<lambda>i. i \<noteq> 0) [0..<length line])"

definition draw_lines :: "video_thread \<Rightarrow> canvas \<Rightarrow> canvas" where
  "draw_lines s img = img @ concat (map draw_line (lines s))"

subsection \<open>Landmarks and gestures\<close>

text \<open>A MediaPipe landmark; only its normalised \<open>x\<close> and \<open>y\<close> are read.\<close>

record landmark =
  lm_x :: real
  lm_y :: real

text \<open>\<^verbatim>\<open>landmarks[i]\<close> for an index \<open>i \<ge> 0\<close>.\<close>

definition item :: "'a list \<Rightarrow> nat \<Rightarrow> py_error + 'a" where
  "item xs i = (if i < length xs then Inr (xs ! i) else Inl IndexError)"

text \<open>\<^verbatim>\<open>int(r)\<close> on a float: truncation towards zero.\<close>

definition py_int :: "real \<Rightarrow> int" where
  "py_int r = (if 0 \<le> r then \<lfloor>r\<rfloor> else \<lceil>r\<rceil>)"

text \<open>
  \<^verbatim>\<open>check_if_pinched\<close> (pinch variant) returns its result together with the state, which
  \<^verbatim>\<open>check_for_new_line\<close> may have changed.
\<close>

definition check_if_pinched ::
  "video_thread \<Rightarrow> landmark list \<Rightarrow> py_error + (bool \<times> video_thread)" where
  "check_if_pinched s landmarks =
     (case item landmarks (index_finger_tip s) of
        Inl e \<Rightarrow> Inl e
      | Inr ift \<Rightarrow>
          (case item landmarks (thumb_tip s) of
             Inl e \<Rightarrow> Inl e
           | Inr tt \<Rightarrow>
               if \<bar>lm_x ift - lm_x tt\<bar> < pinch_tolerance s \<and>
                  \<bar>lm_y ift - lm_y tt\<bar> < pinch_tolerance s
               then Inr (True, s)
               else (case check_for_new_line s of
                       Inl e \<Rightarrow> Inl e
                     | Inr s' \<Rightarrow> Inr (False, s'))))"

definition get_coordinates ::
  "video_thread \<Rightarrow> landmark list \<Rightarrow> nat \<Rightarrow> nat \<Rightarrow> py_error + (int \<times> int)" where
  "get_coordinates s landmarks image_width image_height =
     (case item landmarks (index_finger_tip s) of
        Inl e \<Rightarrow> Inl e
      | Inr ift \<Rightarrow>
          (case item landmarks (thumb_tip s) of
             Inl e \<Rightarrow> Inl e
           | Inr tt \<Rightarrow>
               (let center_x = (lm_x ift + lm_x tt) / 2;
                    center_y = (lm_y ift + lm_y tt) / 2;
                    x = py_int (center_x * real image_width);
                    y = py_int (center_y * real image_height)
                in Inr (x, y))))"

text \<open>
  \<^verbatim>\<open>check_if_index_finger_is_up\<close> (finger-up variant). The loop runs over the landmarks
  and reads \<^verbatim>\<open>landmarks[self.index_finger_tip]\<close> in every pass; the first landmark whose
  \<open>y\<close> is not \<open>\<ge>\<close> the fingertip's ends the loop with \<^verbatim>\<open>check_for_new_line()\<close> and False.
\<close>

fun finger_up_loop ::
  "video_thread \<Rightarrow> landmark list \<Rightarrow> landmark list \<Rightarrow> py_error + (bool \<times> video_thread)" where
  "finger_up_loop s landmarks [] = Inr (True, s)"
| "finger_up_loop s landmarks (landmark # rest) =
     (case item landmarks (index_finger_tip s) of
        Inl e \<Rightarrow> Inl e
      | Inr tip \<Rightarrow>
          if lm_y landmark \<ge> lm_y tip then finger_up_loop s landmarks rest
          else (case check_for_new_line s of
                  Inl e \<Rightarrow> Inl e
                | Inr s' \<Rightarrow> Inr (False, s')))"

definition check_if_index_finger_is_up ::
  "video_thread \<Rightarrow> landmark list \<Rightarrow> py_error + (bool \<times> video_thread)" where
  "check_if_index_finger_is_up s landmarks = finger_up_loop s landmarks landmarks"

definition get_coordinates_F ::
  "video_thread \<Rightarrow> landmark list \<Rightarrow> nat \<Rightarrow> nat \<Rightarrow> py_error + (int \<times> int)" where
  "get_coordinates_F s landmarks image_width image_height =
     (case item landmarks (index_finger_tip s) of
        Inl e \<Rightarrow> Inl e
      | Inr tip \<Rightarrow>
          Inr (py_int (lm_x tip * real image_width), py_int (lm_y tip * real image_height)))"

subsection \<open>One pass of the frame loop\<close>

text \<open>
  \<^verbatim>\<open>generate_whiteboard\<close> returns a fresh board on which nothing has been drawn; its fill
  colour is not modelled.
\<close>

definition generate_whiteboard :: "nat \<Rightarrow> nat \<Rightarrow> canvas" where
  "generate_whiteboard width height = []"

definition draw_indicator :: "settings \<Rightarrow> video_thread \<Rightarrow> canvas \<Rightarrow> int \<Rightarrow> int \<Rightarrow> canvas" where
  "draw_indicator st s img x y =
     (let radius = py_int (real_of_int (line_thickness st) / 2);
          color = reversed (indicator_color s);
          thickness = - 1
      in img @ [Circle (x, y) radius color thickness])"

definition draw_circle :: "settings \<Rightarrow> canvas \<Rightarrow> int \<Rightarrow> int \<Rightarrow> canvas" where
  "draw_circle st img x y = img @ [Circle (x, y) 50 (reversed (line_color st)) 10]"

text \<open>
  What \<^verbatim>\<open>self.video.read()\<close> and \<^verbatim>\<open>hands.process(image).multi_hand_landmarks\<close> deliver in
  one pass. OpenCV returns \<^verbatim>\<open>(False, None)\<close> when no frame could be read; of a frame that
  was read only its shape matters here. MediaPipe delivers \<^verbatim>\<open>None\<close> or a list of hands,
  each a list of landmarks.
\<close>

record snapshot =
  img_height :: nat
  img_width :: nat

record frame_in =
  success :: bool
  snapshot :: "snapshot option"
  multi_hand_landmarks :: "landmark list list option"

text \<open>
  What one pass produces: the image after the drawing calls of the pass, the payload of the
  data signal if one is emitted, the message of the error signal if one is emitted, and
  whether the pass leaves the loop by \<^verbatim>\<open>break\<close>.
\<close>

record frame_out =
  drawn :: canvas
  data_signal :: "(canvas \<times> nat \<times> nat) option"
  error_signal :: "string option"
  break :: bool

definition error_message :: string where
  "error_message =
     ''Unable to receive webcam input.'' @ [CHR 0x0A] @
     ''Check if the webcam is connected properly.''"

text \<open>
  The body of the \<^verbatim>\<open>while\<close> loop of \<^verbatim>\<open>run\<close> in the pinch variant. \<^verbatim>\<open>image.shape\<close> on
  \<^verbatim>\<open>None\<close> raises AttributeError. The mirrored copy kept in \<^verbatim>\<open>self.board\<close> for \<^verbatim>\<open>save\<close>
  and the flip and colour conversion of \<^verbatim>\<open>emit_data_signal\<close> are not modelled.
\<close>

definition step_V ::
  "settings \<Rightarrow> video_thread \<Rightarrow> frame_in \<Rightarrow> py_error + (video_thread \<times> frame_out)" where
  "step_V st s f =
     (if \<not> success f
      then Inr (s, \<lparr>drawn = [], data_signal = None, error_signal = Some error_message,
                    break = True\<rparr>)
      else
        (case snapshot f of
           None \<Rightarrow> Inl AttributeError
         | Some img \<Rightarrow>
             (let image_height = img_height img; image_width = img_width img in
              case
                (case multi_hand_landmarks f of
                   Some (landmarks # _) \<Rightarrow>
                     (case get_coordinates s landmarks image_width image_height of
                        Inl e \<Rightarrow> Inl e
                      | Inr (x, y) \<Rightarrow>
                          (case check_if_pinched s landmarks of
                             Inl e \<Rightarrow> Inl e
                           | Inr (is_pinched, s1) \<Rightarrow>
                               (case (if draw s1 \<and> is_pinched then add_line st s1 x y
                                      else Inr s1) of
                                  Inl e \<Rightarrow> Inl e
                                | Inr s2 \<Rightarrow> Inr (s2, Some (x, y, is_pinched)))))
                 | _ \<Rightarrow>
                     (case check_for_new_line s of
                        Inl e \<Rightarrow> Inl e
                      | Inr s2 \<Rightarrow> Inr (s2, None)))
              of
                Inl e \<Rightarrow> Inl e
              | Inr (s2, hand) \<Rightarrow>
                  (let board = draw_lines s2 (generate_whiteboard image_width image_height);
                       board' =
                         (case hand of
                            Some (x, y, is_pinched) \<Rightarrow>
                              if draw s2 \<and> \<not> is_pinched then draw_indicator st s2 board x y
                              else board
                          | None \<Rightarrow> board)
                   in Inr (s2, \<lparr>drawn = board',
                                 data_signal = Some (board', image_height, image_width),
                                 error_signal = None, break = False\<rparr>)))))"

text \<open>
  The body of the \<^verbatim>\<open>while\<close> loop of \<^verbatim>\<open>run\<close> in the finger-up variant. The lines and the
  circle are drawn on the webcam image itself, here an image without earlier calls. This
  variant does not look at \<open>success\<close> before it reads \<^verbatim>\<open>image.shape\<close>, has no error signal
  and no \<^verbatim>\<open>break\<close>.
\<close>

definition step_F ::
  "settings \<Rightarrow> video_thread \<Rightarrow> frame_in \<Rightarrow> py_error + (video_thread \<times> frame_out)" where
  "step_F st s f =
     (case snapshot f of
        None \<Rightarrow> Inl AttributeError
      | Some img \<Rightarrow>
          (let image_height = img_height img; image_width = img_width img in
           case
             (case multi_hand_landmarks f of
                Some (landmarks # _) \<Rightarrow>
                  (case check_if_index_finger_is_up s landmarks of
                     Inl e \<Rightarrow> Inl e
                   | Inr (is_index_finger_up, s1) \<Rightarrow>
                       if is_index_finger_up
                       then
                         (case get_coordinates_F s1 landmarks image_width image_height of
                            Inl e \<Rightarrow> Inl e
                          | Inr (x, y) \<Rightarrow>
                              (case (if draw s1 then add_line st s1 x y else Inr s1) of
                                 Inl e \<Rightarrow> Inl e
                               | Inr s2 \<Rightarrow> Inr (s2, Some (x, y))))
                       else Inr (s1, None))
              | _ \<Rightarrow>
                  (case check_for_new_line s of
                     Inl e \<Rightarrow> Inl e
                   | Inr s2 \<Rightarrow> Inr (s2, None)))
           of
             Inl e \<Rightarrow> Inl e
           | Inr (s2, up) \<Rightarrow>
               (let img1 = draw_lines s2 [];
                    img2 = (case up of Some (x, y) \<Rightarrow> draw_circle st img1 x y | None \<Rightarrow> img1)
                in Inr (s2, \<lparr>drawn = img2,
                              data_signal =
                                (if success f then Some (img2, image_height, image_width)
                                 else None),
                              error_signal = None, break = False\<rparr>))))"

text \<open>
  The loop of \<^verbatim>\<open>run\<close> over the frames that the camera delivers, each with the settings in
  force during its pass: it ends when \<^verbatim>\<open>self.run_video_thread\<close> is false, at a \<^verbatim>\<open>break\<close>, at
  an exception, or, in this finite model, when the given frames are used up.
\<close>

fun run_loop ::
  "(settings \<Rightarrow> video_thread \<Rightarrow> frame_in \<Rightarrow> py_error + (video_thread \<times> frame_out)) \<Rightarrow>
   video_thread \<Rightarrow> (settings \<times> frame_in) list \<Rightarrow> py_error + (video_thread \<times> frame_out list)" where
  "run_loop step s [] = Inr (s, [])"
| "run_loop step s ((st, f) # fs) =
     (if \<not> run_video_thread s then Inr (s, [])
      else
        (case step st s f of
           Inl e \<Rightarrow> Inl e
         | Inr (s', out) \<Rightarrow>
             if break out then Inr (s', [out])
             else (case run_loop step s' fs of
                     Inl e \<Rightarrow> Inl e
                   | Inr (s'', outs) \<Rightarrow> Inr (s'', out # outs))))"

definition run_V ::
  "video_thread \<Rightarrow> (settings \<times> frame_in) list \<Rightarrow> py_error + (video_thread \<times> frame_out list)" where
  "run_V = run_loop step_V"

definition run_F ::
  "video_thread \<Rightarrow> (settings \<times> frame_in) list \<Rightarrow> py_error + (video_thread \<times> frame_out list)" where
  "run_F = run_loop step_F"

text \<open>Whether the image of a pass carries a circle, the indicator.\<close>

fun is_circle :: "draw_cmd \<Rightarrow> bool" where
  "is_circle (Circle c r col t) = True"
| "is_circle (Line p q col t) = False"

definition indicator_drawn :: "frame_out \<Rightarrow> bool" where
  "indicator_drawn out = list_ex is_circle (drawn out)"

text \<open>
  A session as the ledger sees it: passes of the frame loop interleaved with the commands
  of the buttons, one at a time. A pass that ends the loop leaves the state as it is, so
  letting later passes run only adds states.
\<close>

datatype event = Frame settings frame_in | ToggleDraw | UndoCmd | ClearCmd

fun exec ::
  "(settings \<Rightarrow> video_thread \<Rightarrow> frame_in \<Rightarrow> py_error + (video_thread \<times> frame_out)) \<Rightarrow>
   video_thread \<Rightarrow> event list \<Rightarrow> py_error + video_thread" where
  "exec step s [] = Inr s"
| "exec step s (Frame st f # evs) =
     (case step st s f of Inl e \<Rightarrow> Inl e | Inr (s', out) \<Rightarrow> exec step s' evs)"
| "exec step s (ToggleDraw # evs) =
     (case toggle_draw s of Inl e \<Rightarrow> Inl e | Inr s' \<Rightarrow> exec step s' evs)"
| "exec step s (UndoCmd # evs) =
     (case undo s of Inl e \<Rightarrow> Inl e | Inr s' \<Rightarrow> exec step s' evs)"
| "exec step s (ClearCmd # evs) = exec step (clear s) evs"

subsection \<open>Concrete inputs\<close>

text \<open>The settings that \<^verbatim>\<open>SettingsWindow.__init__\<close> sets.\<close>

definition settings_init :: settings where
  "settings_init = \<lparr>line_thickness = 10, line_color = (255, 0, 0)\<rparr>"

text \<open>
  A hand of 21 landmarks, in MediaPipe's order (wrist 0, thumb 1 to 4, index finger 5 to
  8, ...), with coordinates in 64ths so that the float arithmetic of the program is exact
  on them. The index fingertip (8) is level with the joint below it (7) and above all
  other landmarks; the thumb tip (4) is far from the index fingertip.
\<close>

definition level_hand :: "landmark list" where
  "level_hand =
     map (\<lambda>(a, b). \<lparr>lm_x = a / 64, lm_y = b / 64\<rparr>)
       [(32, 58), (26, 54), (20, 50), (16, 46), (12, 44),
        (29, 38), (29, 32), (29, 26), (30, 26),
        (32, 38), (32, 42), (32, 46), (32, 48),
        (35, 38), (35, 42), (35, 46), (35, 48),
        (38, 42), (38, 45), (38, 48), (38, 51)]"

text \<open>The same hand with the thumb tip moved next to the index fingertip.\<close>

definition pinch_hand :: "landmark list" where
  "pinch_hand = level_hand[4 := \<lparr>lm_x = 31 / 64, lm_y = 27 / 64\<rparr>]"

definition frame_with :: "landmark list \<Rightarrow> frame_in" where
  "frame_with landmarks =
     \<lparr>success = True, snapshot = Some \<lparr>img_height = 480, img_width = 640\<rparr>,
      multi_hand_landmarks = Some [landmarks]\<rparr>"

text \<open>What OpenCV delivers when the camera cannot be read.\<close>

definition failed_read :: frame_in where
  "failed_read = \<lparr>success = False, snapshot = None, multi_hand_landmarks = None\<rparr>"

text \<open>
  While drawing is switched off the current stroke is empty; the ledger always has a
  stroke.
\<close>

definition paused_inv :: "video_thread \<Rightarrow> bool" where
  "paused_inv s = (lines s \<noteq> [] \<and> (draw s \<or> last (lines s) = []))"

text \<open>
  Frames as the pinch variant classifies them, for the configuration held in \<open>s\<close>: a frame
  that was read, with a hand whose index fingertip and thumb tip are within the tolerance
  on both axes; and a frame that was read, with no hand or with a hand outside the
  tolerance on some axis.
\<close>

definition pinch_frame :: "video_thread \<Rightarrow> frame_in \<Rightarrow> bool" where
  "pinch_frame s f =
     (success f \<and> snapshot f \<noteq> None \<and>
      (case multi_hand_landmarks f of
         Some (landmarks # _) \<Rightarrow>
           index_finger_tip s < length landmarks \<and> thumb_tip s < length landmarks \<and>
           \<bar>lm_x (landmarks ! index_finger_tip s) - lm_x (landmarks ! thumb_tip s)\<bar>
             < pinch_tolerance s \<and>
           \<bar>lm_y (landmarks ! index_finger_tip s) - lm_y (landmarks ! thumb_tip s)\<bar>
             < pinch_tolerance s
       | _ \<Rightarrow> False))"

definition release_frame :: "video_thread \<Rightarrow> frame_in \<Rightarrow> bool" where
  "release_frame s f =
     (success f \<and> snapshot f \<noteq> None \<and>
      (case multi_hand_landmarks f of
         Some (landmarks # _) \<Rightarrow>
           index_finger_tip s < length landmarks \<and> thumb_tip s < length landmarks \<and>
           (pinch_tolerance s
              \<le> \<bar>lm_x (landmarks ! index_finger_tip s) - lm_x (landmarks ! thumb_tip s)\<bar> \<or>
            pinch_tolerance s
              \<le> \<bar>lm_y (landmarks ! index_finger_tip s) - lm_y (landmarks ! thumb_tip s)\<bar>)
       | _ \<Rightarrow> True))"

section \<open>Properties of the ledger\<close>

lemma last_update_conv: "l \<noteq> [] \<Longrightarrow> l[length l - Suc 0 := v] = butlast l @ [v]"
  by (induction l rule: rev_induct) (simp_all add: list_update_append)

lemma lines_add_line:
  "lines s \<noteq> [] \<Longrightarrow>
   add_line st s x y =
     Inr (s\<lparr>lines := butlast (lines s) @
                 [last (lines s) @ [((x, y), line_thickness st, line_color st)]]\<rparr>)"
  by (simp add: add_line_def current_line_def last_update_conv)

lemma check_for_new_line_conv:
  "lines s \<noteq> [] \<Longrightarrow>
   check_for_new_line s = Inr (if last (lines s) \<noteq> [] then s\<lparr>lines := lines s @ [[]]\<rparr> else s)"
  by (simp add: check_for_new_line_def current_line_def)

lemma ledger_inv_snoc_empty:
  "ledger_inv l \<Longrightarrow> last l \<noteq> [] \<Longrightarrow> ledger_inv (l @ [[]])"
  by (cases l rule: rev_cases) (simp_all add: ledger_inv_def butlast_append)

lemma undo_conv:
  "ledger_inv (lines s) \<Longrightarrow>
   undo s = Inr (s\<lparr>lines :=
     (if last (lines s) \<noteq> [] then butlast (lines s) else butlast (butlast (lines s))) @ [[]]\<rparr>)"
proof -
  assume inv: "ledger_inv (lines s)"
  then obtain xs c where l: "lines s = xs @ [c]"
    by (cases "lines s" rule: rev_cases) (simp_all add: ledger_inv_def)
  from inv l have xs: "list_all (\<lambda>line. line \<noteq> []) xs"
    by (simp add: ledger_inv_def)
  show ?thesis
  proof (cases "c = []")
    case False
    show ?thesis
    proof (cases xs rule: rev_cases)
      case Nil
      with l False show ?thesis
        by (simp add: undo_def current_line_def clear_def)
    next
      case (snoc ys d)
      with xs have "d \<noteq> []" by simp
      with l False snoc show ?thesis
        by (simp add: undo_def current_line_def check_for_new_line_def butlast_append)
    qed
  next
    case True
    show ?thesis
    proof (cases xs rule: rev_cases)
      case Nil
      with l True show ?thesis
        by (simp add: undo_def current_line_def clear_def)
    next
      case (snoc ys d)
      note xs_snoc = snoc
      show ?thesis
      proof (cases ys rule: rev_cases)
        case Nil
        with l True xs_snoc show ?thesis
          by (simp add: undo_def current_line_def clear_def)
      next
        case (snoc zs e)
        with xs xs_snoc have "e \<noteq> []" by simp
        with l True xs_snoc snoc show ?thesis
          by (simp add: undo_def current_line_def check_for_new_line_def butlast_append)
      qed
    qed
  qed
qed

lemma list_all_butlast: "list_all P l \<Longrightarrow> list_all P (butlast l)"
  by (induction l) simp_all

lemma ledger_inv_add_line:
  "ledger_inv (lines s) \<Longrightarrow> \<exists>s'. add_line st s x y = Inr s' \<and> ledger_inv (lines s')"
  by (simp add: lines_add_line ledger_inv_def)

lemma ledger_inv_check_for_new_line:
  "ledger_inv (lines s) \<Longrightarrow> \<exists>s'. check_for_new_line s = Inr s' \<and> ledger_inv (lines s')"
proof -
  assume inv: "ledger_inv (lines s)"
  then have ne: "lines s \<noteq> []" by (simp add: ledger_inv_def)
  show ?thesis
  proof (cases "last (lines s) = []")
    case True
    with inv ne show ?thesis by (simp add: check_for_new_line_conv)
  next
    case False
    with ne ledger_inv_snoc_empty [OF inv] show ?thesis
      by (simp add: check_for_new_line_conv)
  qed
qed

lemma ledger_inv_undo:
  "ledger_inv (lines s) \<Longrightarrow> \<exists>s'. undo s = Inr s' \<and> ledger_inv (lines s')"
  by (simp add: undo_conv) (simp add: ledger_inv_def list_all_butlast)

lemma ledger_inv_clear: "ledger_inv (lines (clear s))"
  by (simp add: clear_def ledger_inv_def)

lemma ledger_inv_apply_op:
  "ledger_inv (lines s) \<Longrightarrow> \<exists>s'. apply_op s a = Inr s' \<and> ledger_inv (lines s')"
  by (cases a)
     (simp_all add: ledger_inv_add_line ledger_inv_check_for_new_line ledger_inv_undo
        ledger_inv_clear)

lemma ledger_inv_apply_ops:
  "ledger_inv (lines s) \<Longrightarrow> \<exists>s'. apply_ops s as = Inr s' \<and> ledger_inv (lines s')"
proof (induction as arbitrary: s)
  case Nil
  then show ?case by simp
next
  case (Cons a as)
  from ledger_inv_apply_op [OF Cons.prems, of a]
  obtain s1 where s1: "apply_op s a = Inr s1" "ledger_inv (lines s1)" by blast
  from Cons.IH [OF s1(2)] s1(1) show ?case by simp
qed

lemma ledger_inv_init: "ledger_inv (lines (init ift tt))"
  by (simp add: init_def ledger_inv_def)

text \<open>
  Claim C1. Starting from the ledger that \<^verbatim>\<open>__init__\<close> creates (one empty stroke), every
  sequence of \<^verbatim>\<open>add_line\<close>, \<^verbatim>\<open>check_for_new_line\<close>, \<^verbatim>\<open>undo\<close> and \<^verbatim>\<open>clear\<close> runs without an
  exception and ends in a ledger that has at least one stroke and whose strokes, except
  possibly the last, are all non-empty. Since every prefix of a sequence is a sequence,
  this holds after each operation.
\<close>

theorem C1_ledger_invariant:
  "\<exists>s'. apply_ops (init ift tt) ops = Inr s' \<and> lines s' \<noteq> [] \<and>
        list_all (\<lambda>line. line \<noteq> []) (butlast (lines s'))"
  using ledger_inv_apply_ops [OF ledger_inv_init, of ift tt ops]
  by (simp add: ledger_inv_def)

theorem C1_ledger_invariant_witness:
  "\<exists>s'. apply_ops (init 8 4)
          [AddLine \<lparr>line_thickness = 10, line_color = (255, 0, 0)\<rparr> 3 4, CheckForNewLine,
           Undo, Undo, Clear] = Inr s' \<and> lines s' \<noteq> [] \<and>
        list_all (\<lambda>line. line \<noteq> []) (butlast (lines s'))"
  using C1_ledger_invariant [of 8 4
          "[AddLine \<lparr>line_thickness = 10, line_color = (255, 0, 0)\<rparr> 3 4, CheckForNewLine,
            Undo, Undo, Clear]"]
  by simp

subsection \<open>Undo\<close>

lemma completed_append: "completed (xs @ ys) = completed xs @ completed ys"
  by (simp add: completed_def)

lemma completed_all: "list_all (\<lambda>line. line \<noteq> []) l \<Longrightarrow> completed l = l"
  by (induction l) (simp_all add: completed_def)

lemma ledger_inv_cases:
  assumes "ledger_inv l"
  obtains "l = [[]]"
  | xs c where "l = xs @ [c]" "c \<noteq> []" "list_all (\<lambda>line. line \<noteq> []) xs"
  | xs d where "l = xs @ [d, []]" "d \<noteq> []" "list_all (\<lambda>line. line \<noteq> []) xs"
proof -
  from assms obtain ys c where l: "l = ys @ [c]" and ys: "list_all (\<lambda>line. line \<noteq> []) ys"
    by (cases l rule: rev_cases) (simp_all add: ledger_inv_def)
  show thesis
  proof (cases "c = []")
    case False
    with l ys that(2) show thesis by blast
  next
    case True
    show thesis
    proof (cases ys rule: rev_cases)
      case Nil
      with l True that(1) show thesis by simp
    next
      case (snoc zs d)
      with ys have "d \<noteq> []" "list_all (\<lambda>line. line \<noteq> []) zs" by simp_all
      with l True snoc that(3) [of zs d] show thesis by simp
    qed
  qed
qed

lemma undo_minimal: "lines s = [[]] \<Longrightarrow> undo s = Inr s"
  by (simp add: undo_def current_line_def clear_def)

lemma undo_completed:
  assumes "ledger_inv (lines s)" and "undo s = Inr s'"
  shows "length (completed (lines s')) = length (completed (lines s)) - 1"
  using assms(1)
proof (cases rule: ledger_inv_cases)
  case 1
  with assms(2) show ?thesis by (simp add: undo_minimal completed_def)
next
  case (2 xs c)
  with assms show ?thesis
    by (auto simp: undo_conv completed_append) (simp add: completed_def)
next
  case (3 xs d)
  with assms show ?thesis
    by (auto simp: undo_conv completed_append butlast_append) (simp add: completed_def)
qed

lemma ledger_inv_no_completed:
  "ledger_inv l \<Longrightarrow> completed l = [] \<Longrightarrow> l = [[]]"
  by (erule ledger_inv_cases) (simp_all add: completed_def)

lemma undo_n_reaches_clear:
  "ledger_inv (lines s) \<Longrightarrow> length (completed (lines s)) \<le> n \<Longrightarrow> undo_n n s = Inr (clear s)"
proof (induction n arbitrary: s)
  case 0
  then have "lines s = [[]]" by (simp add: ledger_inv_no_completed)
  then show ?case by (simp add: clear_def)
next
  case (Suc n)
  from ledger_inv_undo [OF Suc.prems(1)]
  obtain s1 where s1: "undo s = Inr s1" "ledger_inv (lines s1)" by blast
  from undo_completed [OF Suc.prems(1) s1(1)] Suc.prems(2)
  have "length (completed (lines s1)) \<le> n" by simp
  from Suc.IH [OF s1(2) this] have "undo_n n s1 = Inr (clear s1)" .
  moreover from s1(1) Suc.prems(1) have "clear s1 = clear s"
    by (auto simp: undo_conv clear_def)
  ultimately show ?case using s1(1) by simp
qed

text \<open>
  Claim C2, as amended. The claim promises the removal for every ledger that satisfies the
  invariant; on the ledger of one empty stroke there is no stroke to remove and \<^verbatim>\<open>undo\<close>
  returns the ledger as it was. For a ledger that satisfies the invariant and holds at
  least one non-empty stroke, \<^verbatim>\<open>undo\<close> raises nothing and removes exactly the last non-empty
  stroke: when the current stroke is non-empty only that stroke is dropped, when it is
  empty the ledger has at least two strokes and the two trailing ones are dropped; in both
  cases an empty current stroke follows the strokes that remain.
\<close>

theorem C2_undo_removes_last_stroke:
  assumes "ledger_inv (lines s)" and "completed (lines s) \<noteq> []"
  shows "\<exists>s'. undo s = Inr s' \<and>
           lines s' = (if last (lines s) \<noteq> [] then butlast (lines s)
                       else butlast (butlast (lines s))) @ [[]] \<and>
           (last (lines s) = [] \<longrightarrow> 2 \<le> length (lines s)) \<and>
           completed (lines s') = butlast (completed (lines s)) \<and>
           length (completed (lines s')) + 1 = length (completed (lines s))"
  using assms(1)
proof (cases rule: ledger_inv_cases)
  case 1
  with assms(2) show ?thesis by (simp add: completed_def)
next
  case (2 xs c)
  with assms(1) show ?thesis
    by (simp add: undo_conv completed_append completed_all) (simp add: completed_def)
next
  case (3 xs d)
  with assms(1) show ?thesis
    by (simp add: undo_conv completed_append completed_all butlast_append)
       (simp add: completed_def)
qed

theorem C2_undo_removes_last_stroke_witness:
  "\<exists>s'. undo ((init 8 4)\<lparr>lines := [[((1, 1), 10, (255, 0, 0)), ((2, 1), 10, (255, 0, 0))],
                                   [((5, 5), 4, (0, 0, 255)), ((6, 7), 4, (0, 0, 255))],
                                   []]\<rparr>) = Inr s' \<and>
        lines s' = [[((1, 1), 10, (255, 0, 0)), ((2, 1), 10, (255, 0, 0))], []]"
proof -
  let ?s = "(init 8 4)\<lparr>lines := [[((1, 1), 10, (255, 0, 0)), ((2, 1), 10, (255, 0, 0))],
                                   [((5, 5), 4, (0, 0, 255)), ((6, 7), 4, (0, 0, 255))],
                                   []]\<rparr>"
  have inv: "ledger_inv (lines ?s)" by (simp add: ledger_inv_def)
  have some: "completed (lines ?s) \<noteq> []" by (simp add: completed_def)
  from C2_undo_removes_last_stroke [OF inv some] show ?thesis by auto
qed

text \<open>
  The claim as stated fails on the ledger that \<^verbatim>\<open>__init__\<close> creates: it satisfies the
  invariant, it holds no non-empty stroke, and \<^verbatim>\<open>undo\<close> leaves it as it is, so no stroke
  is removed.
\<close>

theorem C2_counterexample:
  "ledger_inv (lines (init 8 4)) \<and> undo (init 8 4) = Inr (init 8 4) \<and>
   lines (init 8 4) = [[]] \<and>
   length (completed (lines (init 8 4))) + 1 \<noteq> length (completed (lines (init 8 4)))"
  by (simp add: ledger_inv_def init_def undo_def current_line_def clear_def completed_def)

text \<open>
  Claim C8. From a ledger that satisfies the invariant, applying \<^verbatim>\<open>undo\<close> as many times as
  there are non-empty strokes, or more often, raises nothing and ends in the state that
  \<^verbatim>\<open>clear\<close> produces; \<^verbatim>\<open>clear\<close> produces the ledger of exactly one empty stroke from any
  state; and \<^verbatim>\<open>undo\<close> on that ledger returns it unchanged, without an exception.
\<close>

theorem C8_undo_repeated_is_clear:
  assumes "ledger_inv (lines s)" and "length (completed (lines s)) \<le> n"
  shows "undo_n n s = Inr (clear s) \<and> lines (clear t) = [[]] \<and>
         undo (clear t) = Inr (clear t)"
proof -
  have "lines (clear t) = [[]]" by (simp add: clear_def)
  with undo_n_reaches_clear [OF assms] undo_minimal [of "clear t"] show ?thesis by simp
qed

theorem C8_undo_repeated_is_clear_witness:
  "undo_n 2 ((init 8 4)\<lparr>lines := [[((1, 1), 10, (255, 0, 0))], [((5, 5), 4, (0, 0, 255))],
                                   []]\<rparr>) = Inr (init 8 4) \<and>
   undo (init 8 4) = Inr (init 8 4)"
proof -
  let ?s = "(init 8 4)\<lparr>lines := [[((1, 1), 10, (255, 0, 0))], [((5, 5), 4, (0, 0, 255))],
                                   []]\<rparr>"
  have inv: "ledger_inv (lines ?s)" by (simp add: ledger_inv_def)
  have n: "length (completed (lines ?s)) \<le> 2" by (simp add: completed_def)
  from C8_undo_repeated_is_clear [OF inv n, of "init 8 4"] show ?thesis
    by (simp add: clear_def init_def)
qed

text \<open>
  Claim C10. On a ledger with at least one stroke, none of the three operations raises,
  and each leaves the strokes it keeps as they were: \<^verbatim>\<open>add_line\<close> keeps the number of
  strokes and every stroke but the last, and extends the last stroke by the one new entry
  at its end; \<^verbatim>\<open>check_for_new_line\<close> returns the ledger itself or the ledger followed by one
  empty stroke; \<^verbatim>\<open>undo\<close> returns the ledger without its last one or two strokes, possibly
  followed by one empty stroke.
\<close>

theorem C10_operations_keep_other_strokes:
  assumes "lines s \<noteq> []"
  shows "(\<exists>s'. add_line st s x y = Inr s' \<and> length (lines s') = length (lines s) \<and>
               butlast (lines s') = butlast (lines s) \<and>
               last (lines s') = last (lines s) @ [((x, y), line_thickness st, line_color st)]) \<and>
         (\<exists>s'. check_for_new_line s = Inr s' \<and>
               (lines s' = lines s \<or> lines s' = lines s @ [[]])) \<and>
         (\<exists>s' k. undo s = Inr s' \<and> (k = 1 \<or> k = 2) \<and>
               (lines s' = take (length (lines s) - k) (lines s) \<or>
                lines s' = take (length (lines s) - k) (lines s) @ [[]]))"
proof (intro conjI)
  from assms show "\<exists>s'. add_line st s x y = Inr s' \<and> length (lines s') = length (lines s) \<and>
               butlast (lines s') = butlast (lines s) \<and>
               last (lines s') = last (lines s) @ [((x, y), line_thickness st, line_color st)]"
    by (simp add: lines_add_line)
next
  from assms show "\<exists>s'. check_for_new_line s = Inr s' \<and>
               (lines s' = lines s \<or> lines s' = lines s @ [[]])"
    by (simp add: check_for_new_line_conv)
next
  let ?k = "if last (lines s) \<noteq> [] then 1 else 2 :: nat"
  let ?p = "take (length (lines s) - ?k) (lines s)"
  have "\<exists>s'. undo s = Inr s' \<and> (lines s' = ?p \<or> lines s' = ?p @ [[]])"
  proof (cases "?p = []")
    case True
    with assms show ?thesis
      by (simp add: undo_def current_line_def clear_def Let_def)
  next
    case False
    with assms show ?thesis
      by (simp add: undo_def current_line_def check_for_new_line_def Let_def)
  qed
  then obtain s' where s': "undo s = Inr s'" "lines s' = ?p \<or> lines s' = ?p @ [[]]"
    by blast
  have "?k = 1 \<or> ?k = 2" by simp
  with s' show "\<exists>s' k. undo s = Inr s' \<and> (k = 1 \<or> k = 2) \<and>
               (lines s' = take (length (lines s) - k) (lines s) \<or>
                lines s' = take (length (lines s) - k) (lines s) @ [[]])"
    by blast
qed

theorem C10_operations_keep_other_strokes_witness:
  "(\<exists>s'. add_line \<lparr>line_thickness = 7, line_color = (0, 255, 0)\<rparr>
            ((init 8 4)\<lparr>lines := [[((1, 1), 10, (255, 0, 0))], [((5, 5), 4, (0, 0, 255))]]\<rparr>)
            9 9 = Inr s' \<and>
         lines s' = [[((1, 1), 10, (255, 0, 0))],
                     [((5, 5), 4, (0, 0, 255)), ((9, 9), 7, (0, 255, 0))]]) \<and>
   (\<exists>s'. undo ((init 8 4)\<lparr>lines := [[((1, 1), 10, (255, 0, 0))],
                                      [((5, 5), 4, (0, 0, 255))]]\<rparr>) = Inr s' \<and>
         lines s' = [[((1, 1), 10, (255, 0, 0))], []])"
proof -
  let ?s = "(init 8 4)\<lparr>lines := [[((1, 1), 10, (255, 0, 0))], [((5, 5), 4, (0, 0, 255))]]\<rparr>"
  have ne: "lines ?s \<noteq> []" by simp
  from C10_operations_keep_other_strokes [OF ne, of "\<lparr>line_thickness = 7, line_color = (0, 255, 0)\<rparr>" 9 9]
  show ?thesis
    by (simp add: add_line_def undo_def current_line_def check_for_new_line_def)
qed

subsection \<open>Rendering the strokes\<close>

lemma filter_nonzero_upt: "filter (\<lambda>i. i \<noteq> 0) [0..<n] = [Suc 0..<n]"
proof (cases n)
  case 0
  then show ?thesis by simp
next
  case (Suc m)
  have "filter (\<lambda>i. i \<noteq> 0) [Suc 0..<Suc m] = [Suc 0..<Suc m]"
    by (rule filter_True) auto
  with Suc show ?thesis by (simp add: upt_conv_Cons del: upt_Suc)
qed

lemma draw_line_conv:
  "draw_line line =
     map (\<lambda>i. Line (position_of (line ! i)) (position_of (line ! Suc i))
                 (reversed (color_of (line ! i))) (thickness_of (line ! i)))
       [0..<length line - 1]"
proof (cases "length line")
  case 0
  then show ?thesis by (simp add: draw_line_def)
next
  case (Suc m)
  have "[Suc 0..<Suc m] = map Suc [0..<m]" by (simp only: map_Suc_upt)
  with Suc show ?thesis
    by (simp only: draw_line_def filter_nonzero_upt) (simp add: comp_def del: upt_Suc)
qed

lemma length_draw_line: "length (draw_line line) = length line - 1"
  by (simp add: draw_line_conv)

lemma draw_line_snoc2:
  "draw_line (line @ [p, q]) =
     draw_line (line @ [p]) @ [Line (position_of p) (position_of q) (reversed (color_of p)) (thickness_of p)]"
proof -
  have a: "(line @ [p, q]) ! length line = p" by simp
  have b: "(line @ [p, q]) ! Suc (length line) = q"
    by (simp add: nth_append)
  have c: "\<forall>i < length line. (line @ [p, q]) ! i = (line @ [p]) ! i \<and>
                              (line @ [p, q]) ! Suc i = (line @ [p]) ! Suc i"
    by (auto simp: nth_append)
  from a b c show ?thesis by (simp add: draw_line_conv)
qed

text \<open>
  Claim C9. \<^verbatim>\<open>draw_lines\<close> adds to the image, stroke after stroke, the segments of each
  stroke. A stroke of \<open>n\<close> entries yields \<open>n - 1\<close> calls of \<^verbatim>\<open>cv2.line\<close> (none for \<open>n < 2\<close>).
  The call number \<open>i\<close> goes from entry \<open>i\<close> to entry \<open>i + 1\<close> with the thickness stored in entry
  \<open>i\<close> and the colour stored in entry \<open>i\<close>, its channels reversed for OpenCV. The entry stores
  the settings read by \<^verbatim>\<open>add_line\<close>: after two calls of \<^verbatim>\<open>add_line\<close> under settings \<open>st1\<close> and
  then \<open>st2\<close>, the last segment of the current stroke is drawn with the thickness and the
  colour of \<open>st1\<close>.
\<close>

theorem C9_segments_use_earlier_style:
  "draw_lines s img = img @ concat (map draw_line (lines s)) \<and>
   length (draw_line line) = length line - 1 \<and>
   (length line < 2 \<longrightarrow> draw_line line = []) \<and>
   (\<forall>i. Suc i < length line \<longrightarrow>
      draw_line line ! i =
        Line (position_of (line ! i)) (position_of (line ! Suc i))
          (reversed (color_of (line ! i))) (thickness_of (line ! i))) \<and>
   (lines s \<noteq> [] \<longrightarrow>
      (\<exists>s1 s2. add_line st1 s x1 y1 = Inr s1 \<and> add_line st2 s1 x2 y2 = Inr s2 \<and>
         last (draw_line (last (lines s2))) =
           Line (x1, y1) (x2, y2) (reversed (line_color st1)) (line_thickness st1)))"
proof (intro conjI)
  show "draw_lines s img = img @ concat (map draw_line (lines s))"
    by (simp add: draw_lines_def)
next
  show "length (draw_line line) = length line - 1"
    by (rule length_draw_line)
next
  show "length line < 2 \<longrightarrow> draw_line line = []"
    using length_draw_line [of line] by auto
next
  show "\<forall>i. Suc i < length line \<longrightarrow>
      draw_line line ! i =
        Line (position_of (line ! i)) (position_of (line ! Suc i))
          (reversed (color_of (line ! i))) (thickness_of (line ! i))"
  proof (intro allI impI)
    fix i
    assume "Suc i < length line"
    then have "i < length line - 1" by simp
    then have "[0..<length line - 1] ! i = i" by simp
    with \<open>i < length line - 1\<close> show "draw_line line ! i =
        Line (position_of (line ! i)) (position_of (line ! Suc i))
          (reversed (color_of (line ! i))) (thickness_of (line ! i))"
      by (simp add: draw_line_conv)
  qed
next
  show "lines s \<noteq> [] \<longrightarrow>
      (\<exists>s1 s2. add_line st1 s x1 y1 = Inr s1 \<and> add_line st2 s1 x2 y2 = Inr s2 \<and>
         last (draw_line (last (lines s2))) =
           Line (x1, y1) (x2, y2) (reversed (line_color st1)) (line_thickness st1))"
    by (simp add: lines_add_line draw_line_snoc2 position_of_def color_of_def thickness_of_def)
qed

theorem C9_segments_use_earlier_style_witness:
  "draw_line [((1, 1), 10, (255, 0, 0)), ((4, 5), 3, (0, 0, 255))] =
     [Line (1, 1) (4, 5) (0, 0, 255) 10] \<and>
   draw_line [((1, 1), 10, (255, 0, 0))] = []"
  using C9_segments_use_earlier_style
          [of "init 8 4" "[]" "[((1, 1), 10, (255, 0, 0)), ((4, 5), 3, (0, 0, 255))]"]
  by (simp add: draw_line_def position_of_def color_of_def thickness_of_def)

section \<open>Properties of the gestures and of the frame loop\<close>

subsection \<open>What the operations leave alone\<close>

lemma check_for_new_line_cases:
  assumes "check_for_new_line s = Inr s'"
  shows "lines s \<noteq> [] \<and> (s' = s \<or> s' = s\<lparr>lines := lines s @ [[]]\<rparr>) \<and> last (lines s') = []"
  using assms by (auto simp: check_for_new_line_def current_line_def split: if_splits)

lemma check_for_new_line_draw: "check_for_new_line s = Inr s' \<Longrightarrow> draw s' = draw s"
  by (auto dest: check_for_new_line_cases)

lemma check_for_new_line_nonempty: "check_for_new_line s = Inr s' \<Longrightarrow> lines s' \<noteq> []"
  by (auto dest: check_for_new_line_cases)

lemma check_for_new_line_last: "check_for_new_line s = Inr s' \<Longrightarrow> last (lines s') = []"
  by (auto dest: check_for_new_line_cases)

lemma check_for_new_line_idle:
  "lines s \<noteq> [] \<Longrightarrow> last (lines s) = [] \<Longrightarrow> check_for_new_line s = Inr s"
  by (simp add: check_for_new_line_conv)

lemma add_line_cases:
  assumes "add_line st s x y = Inr s'"
  shows "lines s \<noteq> [] \<and> draw s' = draw s \<and> lines s' \<noteq> []"
  using assms by (auto simp: add_line_def current_line_def split: if_splits)

lemma check_if_pinched_cases:
  assumes "check_if_pinched s landmarks = Inr (b, s1)"
  shows "(b \<and> s1 = s) \<or> (\<not> b \<and> check_for_new_line s = Inr s1)"
  using assms by (auto simp: check_if_pinched_def split: sum.splits if_splits)

lemma finger_up_loop_cases:
  "finger_up_loop s landmarks rest = Inr (b, s1) \<Longrightarrow>
   (b \<and> s1 = s) \<or> (\<not> b \<and> check_for_new_line s = Inr s1)"
  by (induction rest) (auto split: sum.splits if_splits)

lemma check_if_index_finger_is_up_cases:
  "check_if_index_finger_is_up s landmarks = Inr (b, s1) \<Longrightarrow>
   (b \<and> s1 = s) \<or> (\<not> b \<and> check_for_new_line s = Inr s1)"
  unfolding check_if_index_finger_is_up_def by (rule finger_up_loop_cases)

subsection \<open>The finger-up gesture\<close>

lemma finger_up_loop_conv:
  assumes "index_finger_tip s < length landmarks" and "lines s \<noteq> []"
  shows "finger_up_loop s landmarks rest =
     (if list_all (\<lambda>lm. lm_y (landmarks ! index_finger_tip s) \<le> lm_y lm) rest
      then Inr (True, s)
      else Inr (False, if last (lines s) \<noteq> [] then s\<lparr>lines := lines s @ [[]]\<rparr> else s))"
  using assms by (induction rest) (simp_all add: item_def check_for_new_line_conv)

text \<open>
  Claim C3, as amended. With the fingertip index inside the landmark list and a ledger
  that has a stroke, \<^verbatim>\<open>check_if_index_finger_is_up\<close> raises nothing and returns True if and
  only if the fingertip's \<open>y\<close> is less than or equal to the \<open>y\<close> of every landmark of the
  list: a landmark level with the fingertip does not make the gesture inactive.
\<close>

theorem C3_finger_up_iff_no_landmark_above:
  assumes "index_finger_tip s < length landmarks" and "lines s \<noteq> []"
  shows "\<exists>b s'. check_if_index_finger_is_up s landmarks = Inr (b, s') \<and>
           (b \<longleftrightarrow> (\<forall>lm \<in> set landmarks. lm_y (landmarks ! index_finger_tip s) \<le> lm_y lm))"
  unfolding check_if_index_finger_is_up_def finger_up_loop_conv [OF assms]
  by (simp add: list_all_iff)

theorem C3_finger_up_iff_no_landmark_above_witness:
  "\<exists>b s'. check_if_index_finger_is_up (init 8 4) level_hand = Inr (b, s') \<and>
          (b \<longleftrightarrow> (\<forall>lm \<in> set level_hand. lm_y (level_hand ! 8) \<le> lm_y lm))"
proof -
  have i: "index_finger_tip (init 8 4) < length level_hand"
    by (simp add: init_def level_hand_def)
  have l: "lines (init 8 4) \<noteq> []" by (simp add: init_def)
  have "index_finger_tip (init 8 4) = 8" by (simp add: init_def)
  with C3_finger_up_iff_no_landmark_above [OF i l] show ?thesis by simp
qed

text \<open>
  The claim as stated asks for strictly less than every other landmark. On \<open>level_hand\<close>
  the fingertip (8) is level with landmark 7, so it is not strictly above it, and the
  function returns True.
\<close>

theorem C3_counterexample:
  "check_if_index_finger_is_up (init 8 4) level_hand = Inr (True, init 8 4) \<and>
   (7 :: nat) \<noteq> index_finger_tip (init 8 4) \<and> 7 < length level_hand \<and>
   \<not> lm_y (level_hand ! index_finger_tip (init 8 4)) < lm_y (level_hand ! 7)"
  by (simp add: check_if_index_finger_is_up_def init_def level_hand_def item_def)

subsection \<open>The indicator\<close>

lemma draw_line_no_circle: "\<not> list_ex is_circle (draw_line line)"
  by (auto simp: draw_line_def list_ex_iff)

lemma draw_lines_no_circle: "list_ex is_circle (draw_lines s img) = list_ex is_circle img"
  by (auto simp: draw_lines_def list_ex_iff draw_line_def)

lemma step_V_hand:
  assumes "success f" and "snapshot f = Some img"
    and "multi_hand_landmarks f = Some (landmarks # rest)"
    and "check_if_pinched s landmarks = Inr (b, s1)"
    and "step_V st s f = Inr (s', out)"
  shows "indicator_drawn out = (draw s \<and> \<not> b)"
    and "draw s' = draw s"
    and "s' = s1 \<or> (draw s \<and> b)"
proof -
  from assms(4) have d1: "draw s1 = draw s"
    by (auto dest!: check_if_pinched_cases check_for_new_line_draw)
  from assms d1 show "indicator_drawn out = (draw s \<and> \<not> b)"
    by (auto simp: step_V_def Let_def indicator_drawn_def draw_indicator_def
          draw_lines_no_circle generate_whiteboard_def
          split: sum.splits prod.splits if_splits dest: add_line_cases)
  from assms d1 show "draw s' = draw s"
    by (auto simp: step_V_def Let_def split: sum.splits prod.splits if_splits
          dest: add_line_cases)
  from assms d1 show "s' = s1 \<or> (draw s \<and> b)"
    by (auto simp: step_V_def Let_def split: sum.splits prod.splits if_splits)
qed

lemma step_F_hand:
  assumes "snapshot f = Some img"
    and "multi_hand_landmarks f = Some (landmarks # rest)"
    and "check_if_index_finger_is_up s landmarks = Inr (b, s1)"
    and "step_F st s f = Inr (s', out)"
  shows "indicator_drawn out = b"
  using assms
  by (auto simp: step_F_def Let_def indicator_drawn_def draw_circle_def
        draw_lines_no_circle split: sum.splits prod.splits if_splits)

text \<open>
  Claim C4, as amended. In a pass with a hand present that ends without an exception:
  in the pinch variant the indicator is drawn if and only if drawing is enabled and the
  hand is not pinched, and then the pass appends no point (the ledger is the one that
  \<^verbatim>\<open>check_if_pinched\<close> left); so no indicator is drawn when drawing is disabled or the hand
  is pinched. In the finger-up variant the indicator is drawn if and only if the index
  finger is up, whether drawing is enabled or not.
\<close>

theorem C4_indicator_condition:
  "(success f \<and> snapshot f = Some img \<and> multi_hand_landmarks f = Some (landmarks # rest) \<and>
    check_if_pinched s landmarks = Inr (b, s1) \<and> step_V st s f = Inr (s', out) \<longrightarrow>
      indicator_drawn out = (draw s \<and> \<not> b) \<and> (indicator_drawn out \<longrightarrow> s' = s1)) \<and>
   (snapshot f = Some img \<and> multi_hand_landmarks f = Some (landmarks # rest) \<and>
    check_if_index_finger_is_up s landmarks = Inr (b, s1) \<and> step_F st s f = Inr (s', out) \<longrightarrow>
      indicator_drawn out = b)"
proof (intro conjI impI)
  assume a: "success f \<and> snapshot f = Some img \<and>
    multi_hand_landmarks f = Some (landmarks # rest) \<and>
    check_if_pinched s landmarks = Inr (b, s1) \<and> step_V st s f = Inr (s', out)"
  then show "indicator_drawn out = (draw s \<and> \<not> b)"
    using step_V_hand(1) by blast
  assume "indicator_drawn out"
  with a show "s' = s1"
    using step_V_hand(1) [of f img landmarks rest s b s1 st s' out]
      step_V_hand(3) [of f img landmarks rest s b s1 st s' out] by blast
next
  assume "snapshot f = Some img \<and> multi_hand_landmarks f = Some (landmarks # rest) \<and>
    check_if_index_finger_is_up s landmarks = Inr (b, s1) \<and> step_F st s f = Inr (s', out)"
  then show "indicator_drawn out = b"
    using step_F_hand by blast
qed

lemmas frame_eval =
  step_V_def step_F_def frame_with_def level_hand_def pinch_hand_def init_def
  settings_init_def get_coordinates_def get_coordinates_F_def check_if_pinched_def
  check_if_index_finger_is_up_def item_def py_int_def check_for_new_line_def
  current_line_def draw_lines_def draw_line_def generate_whiteboard_def draw_indicator_def
  draw_circle_def Let_def add_line_def

lemma step_V_level_hand:
  "step_V settings_init (init 8 4) (frame_with level_hand) =
     Inr (init 8 4,
          \<lparr>drawn = [Circle (210, 262) 5 (150, 150, 150) (- 1)],
           data_signal = Some ([Circle (210, 262) 5 (150, 150, 150) (- 1)], 480, 640),
           error_signal = None, break = False\<rparr>)"
  by (simp add: frame_eval)

lemma step_V_pinch_hand:
  "step_V settings_init (init 8 4) (frame_with pinch_hand) =
     Inr ((init 8 4)\<lparr>lines := [[((305, 198), 10, (255, 0, 0))]]\<rparr>,
          \<lparr>drawn = [], data_signal = Some ([], 480, 640), error_signal = None,
           break = False\<rparr>)"
  by (simp add: frame_eval)

lemma step_F_level_hand:
  "step_F settings_init (init 8 4) (frame_with level_hand) =
     Inr ((init 8 4)\<lparr>lines := [[((300, 195), 10, (255, 0, 0))]]\<rparr>,
          \<lparr>drawn = [Circle (300, 195) 50 (0, 0, 255) 10],
           data_signal = Some ([Circle (300, 195) 50 (0, 0, 255) 10], 480, 640),
           error_signal = None, break = False\<rparr>)"
  by (simp add: frame_eval)

lemma check_if_pinched_level_hand:
  "check_if_pinched (init 8 4) level_hand = Inr (False, init 8 4)"
  by (simp add: frame_eval)

lemma check_if_pinched_pinch_hand:
  "check_if_pinched (init 8 4) pinch_hand = Inr (True, init 8 4)"
  by (simp add: frame_eval)

lemma check_if_index_finger_is_up_level_hand:
  "check_if_index_finger_is_up (init 8 4) level_hand = Inr (True, init 8 4)"
  by (simp add: frame_eval)

theorem C4_indicator_condition_witness:
  "step_V settings_init (init 8 4) (frame_with pinch_hand) =
     Inr ((init 8 4)\<lparr>lines := [[((305, 198), 10, (255, 0, 0))]]\<rparr>,
          \<lparr>drawn = [], data_signal = Some ([], 480, 640), error_signal = None,
           break = False\<rparr>) \<and>
   check_if_pinched (init 8 4) pinch_hand = Inr (True, init 8 4) \<and>
   \<not> indicator_drawn \<lparr>drawn = [], data_signal = Some ([], 480, 640), error_signal = None,
                       break = False\<rparr> \<and>
   step_F settings_init (init 8 4) (frame_with level_hand) =
     Inr ((init 8 4)\<lparr>lines := [[((300, 195), 10, (255, 0, 0))]]\<rparr>,
          \<lparr>drawn = [Circle (300, 195) 50 (0, 0, 255) 10],
           data_signal = Some ([Circle (300, 195) 50 (0, 0, 255) 10], 480, 640),
           error_signal = None, break = False\<rparr>) \<and>
   check_if_index_finger_is_up (init 8 4) level_hand = Inr (True, init 8 4) \<and>
   indicator_drawn \<lparr>drawn = [Circle (300, 195) 50 (0, 0, 255) 10],
                     data_signal = Some ([Circle (300, 195) 50 (0, 0, 255) 10], 480, 640),
                     error_signal = None, break = False\<rparr>"
proof -
  have v: "success (frame_with pinch_hand) \<and>
           snapshot (frame_with pinch_hand) = Some \<lparr>img_height = 480, img_width = 640\<rparr> \<and>
           multi_hand_landmarks (frame_with pinch_hand) = Some (pinch_hand # [])"
    by (simp add: frame_with_def)
  have f: "snapshot (frame_with level_hand) = Some \<lparr>img_height = 480, img_width = 640\<rparr> \<and>
           multi_hand_landmarks (frame_with level_hand) = Some (level_hand # [])"
    by (simp add: frame_with_def)
  have d: "draw (init 8 4)" by (simp add: init_def)
  from C4_indicator_condition
         [of "frame_with pinch_hand" "\<lparr>img_height = 480, img_width = 640\<rparr>" pinch_hand "[]"
            "init 8 4" True "init 8 4" settings_init
            "(init 8 4)\<lparr>lines := [[((305, 198), 10, (255, 0, 0))]]\<rparr>"
            "\<lparr>drawn = [], data_signal = Some ([], 480, 640), error_signal = None,
              break = False\<rparr>"]
       v step_V_pinch_hand check_if_pinched_pinch_hand d
  have one: "\<not> indicator_drawn \<lparr>drawn = [], data_signal = Some ([], 480, 640),
                                 error_signal = None, break = False\<rparr>"
    by simp
  from C4_indicator_condition
         [of "frame_with level_hand" "\<lparr>img_height = 480, img_width = 640\<rparr>" level_hand "[]"
            "init 8 4" True "init 8 4" settings_init
            "(init 8 4)\<lparr>lines := [[((300, 195), 10, (255, 0, 0))]]\<rparr>"
            "\<lparr>drawn = [Circle (300, 195) 50 (0, 0, 255) 10],
              data_signal = Some ([Circle (300, 195) 50 (0, 0, 255) 10], 480, 640),
              error_signal = None, break = False\<rparr>"]
       f step_F_level_hand check_if_index_finger_is_up_level_hand
  have two: "indicator_drawn \<lparr>drawn = [Circle (300, 195) 50 (0, 0, 255) 10],
                     data_signal = Some ([Circle (300, 195) 50 (0, 0, 255) 10], 480, 640),
                     error_signal = None, break = False\<rparr>"
    by simp
  from one two step_V_pinch_hand check_if_pinched_pinch_hand step_F_level_hand
    check_if_index_finger_is_up_level_hand
  show ?thesis by simp
qed

text \<open>
  The claim as stated allows the indicator only when the gesture is active and drawing is
  disabled. In the pinch variant, with drawing enabled (as \<^verbatim>\<open>__init__\<close> leaves it) and a
  hand that is not pinched, so with an inactive gesture, the pass draws the indicator.
\<close>

theorem C4_counterexample:
  "draw (init 8 4) \<and>
   check_if_pinched (init 8 4) level_hand = Inr (False, init 8 4) \<and>
   step_V settings_init (init 8 4) (frame_with level_hand) =
     Inr (init 8 4,
          \<lparr>drawn = [Circle (210, 262) 5 (150, 150, 150) (- 1)],
           data_signal = Some ([Circle (210, 262) 5 (150, 150, 150) (- 1)], 480, 640),
           error_signal = None, break = False\<rparr>) \<and>
   indicator_drawn
     \<lparr>drawn = [Circle (210, 262) 5 (150, 150, 150) (- 1)],
      data_signal = Some ([Circle (210, 262) 5 (150, 150, 150) (- 1)], 480, 640),
      error_signal = None, break = False\<rparr>"
  using step_V_level_hand check_if_pinched_level_hand
  by (simp add: indicator_drawn_def) (simp add: init_def)

subsection \<open>A failed read\<close>

lemma step_V_read_failure:
  "\<not> success f \<Longrightarrow>
   step_V st s f =
     Inr (s, \<lparr>drawn = [], data_signal = None, error_signal = Some error_message,
              break = True\<rparr>)"
  by (simp add: step_V_def)

lemma run_V_read_failure:
  "run_video_thread s \<Longrightarrow> \<not> success f \<Longrightarrow>
   run_V s ((st, f) # fs) =
     Inr (s, [\<lparr>drawn = [], data_signal = None, error_signal = Some error_message,
               break = True\<rparr>])"
  by (simp add: run_V_def step_V_read_failure)

text \<open>
  Claim C5 holds for the pinch variant (the two lemmas above: a failed read emits the
  error signal, leaves the state alone, reads neither the image nor the landmarks, and ends
  the loop whatever frames would follow). The finger-up variant does not do it: on the
  failed read that OpenCV delivers, \<^verbatim>\<open>image.shape\<close> is evaluated on \<^verbatim>\<open>None\<close> before
  \<open>success\<close> is looked at, and the loop ends with an AttributeError and without a signal.
\<close>

theorem C5_read_failure_finger_up_variant:
  "step_F settings_init (init 8 4) failed_read = Inl AttributeError \<and>
   run_F (init 8 4) ((settings_init, failed_read) # fs) = Inl AttributeError"
  by (simp add: run_F_def step_F_def failed_read_def init_def)

subsection \<open>Frames while drawing is disabled\<close>

lemma step_V_paused:
  assumes "paused_inv s" and "\<not> draw s" and "step_V st s f = Inr (s', out)"
  shows "s' = s"
proof -
  from assms(1,2) have idle: "check_for_new_line s = Inr s"
    by (simp add: paused_inv_def check_for_new_line_idle)
  have pinched: "\<And>landmarks b s1. check_if_pinched s landmarks = Inr (b, s1) \<Longrightarrow> s1 = s"
    using idle by (auto dest: check_if_pinched_cases)
  from assms(2,3) idle show ?thesis
    by (auto simp: step_V_def Let_def split: sum.splits prod.splits if_splits option.splits
          list.splits dest: pinched)
qed

lemma step_F_paused:
  assumes "paused_inv s" and "\<not> draw s" and "step_F st s f = Inr (s', out)"
  shows "s' = s"
proof -
  from assms(1,2) have idle: "check_for_new_line s = Inr s"
    by (simp add: paused_inv_def check_for_new_line_idle)
  have up: "\<And>landmarks b s1. check_if_index_finger_is_up s landmarks = Inr (b, s1) \<Longrightarrow> s1 = s"
    using idle by (auto dest: check_if_index_finger_is_up_cases)
  from assms(2,3) idle show ?thesis
    by (auto simp: step_F_def Let_def split: sum.splits prod.splits if_splits option.splits
          list.splits dest: up)
qed

lemma step_V_keeps:
  assumes "step_V st s f = Inr (s', out)" and "lines s \<noteq> []"
  shows "lines s' \<noteq> [] \<and> draw s' = draw s"
proof -
  have pinched: "\<And>landmarks b s1. check_if_pinched s landmarks = Inr (b, s1) \<Longrightarrow>
                   lines s1 \<noteq> [] \<and> draw s1 = draw s"
    using assms(2)
    by (auto dest!: check_if_pinched_cases
          dest: check_for_new_line_nonempty check_for_new_line_draw)
  from assms show ?thesis
    by (auto simp: step_V_def Let_def split: sum.splits prod.splits if_splits option.splits
          list.splits
          dest: pinched add_line_cases check_for_new_line_nonempty check_for_new_line_draw)
qed

lemma step_F_keeps:
  assumes "step_F st s f = Inr (s', out)" and "lines s \<noteq> []"
  shows "lines s' \<noteq> [] \<and> draw s' = draw s"
proof -
  have up: "\<And>landmarks b s1. check_if_index_finger_is_up s landmarks = Inr (b, s1) \<Longrightarrow>
                   lines s1 \<noteq> [] \<and> draw s1 = draw s"
    using assms(2)
    by (auto dest!: check_if_index_finger_is_up_cases
          dest: check_for_new_line_nonempty check_for_new_line_draw)
  from assms show ?thesis
    by (auto simp: step_F_def Let_def split: sum.splits prod.splits if_splits option.splits
          list.splits
          dest: up add_line_cases check_for_new_line_nonempty check_for_new_line_draw)
qed

lemma paused_inv_step_V:
  assumes "paused_inv s" and "step_V st s f = Inr (s', out)"
  shows "paused_inv s'"
proof (cases "draw s")
  case True
  with assms step_V_keeps [OF assms(2)] show ?thesis by (simp add: paused_inv_def)
next
  case False
  with assms step_V_paused [OF assms(1) _ assms(2)] show ?thesis by simp
qed

lemma paused_inv_step_F:
  assumes "paused_inv s" and "step_F st s f = Inr (s', out)"
  shows "paused_inv s'"
proof (cases "draw s")
  case True
  with assms step_F_keeps [OF assms(2)] show ?thesis by (simp add: paused_inv_def)
next
  case False
  with assms step_F_paused [OF assms(1) _ assms(2)] show ?thesis by simp
qed

lemma paused_inv_toggle_draw:
  "toggle_draw s = Inr s' \<Longrightarrow> paused_inv s'"
  unfolding toggle_draw_def paused_inv_def
  by (auto dest: check_for_new_line_nonempty check_for_new_line_last)

lemma paused_inv_undo: "undo s = Inr s' \<Longrightarrow> paused_inv s'"
  unfolding paused_inv_def
  by (auto simp: undo_def Let_def clear_def split: sum.splits if_splits
        dest: check_for_new_line_nonempty check_for_new_line_last)

lemma paused_inv_clear: "paused_inv (clear s)"
  by (simp add: paused_inv_def clear_def)

lemma paused_inv_init: "paused_inv (init ift tt)"
  by (simp add: paused_inv_def init_def)

lemma paused_inv_exec:
  assumes step: "\<And>st s f s' out. paused_inv s \<Longrightarrow> step st s f = Inr (s', out) \<Longrightarrow> paused_inv s'"
  shows "paused_inv s \<Longrightarrow> exec step s evs = Inr s' \<Longrightarrow> paused_inv s'"
proof (induction evs arbitrary: s)
  case Nil
  then show ?case by simp
next
  case (Cons ev evs)
  show ?case
  proof (cases ev)
    case (Frame st f)
    with Cons.prems(2) obtain s1 out where s1: "step st s f = Inr (s1, out)"
      and rest: "exec step s1 evs = Inr s'"
      by (auto split: sum.splits)
    from step [OF Cons.prems(1) s1] rest show ?thesis by (rule Cons.IH)
  next
    case ToggleDraw
    with Cons.prems(2) obtain s1 where s1: "toggle_draw s = Inr s1"
      and rest: "exec step s1 evs = Inr s'"
      by (auto split: sum.splits)
    from paused_inv_toggle_draw [OF s1] rest show ?thesis by (rule Cons.IH)
  next
    case UndoCmd
    with Cons.prems(2) obtain s1 where s1: "undo s = Inr s1"
      and rest: "exec step s1 evs = Inr s'"
      by (auto split: sum.splits)
    from paused_inv_undo [OF s1] rest show ?thesis by (rule Cons.IH)
  next
    case ClearCmd
    with Cons.prems(2) have rest: "exec step (clear s) evs = Inr s'" by simp
    from paused_inv_clear rest show ?thesis by (rule Cons.IH)
  qed
qed

text \<open>
  Claim C7. In every state that a session reaches from \<^verbatim>\<open>__init__\<close> by passes of the frame
  loop and by the commands toggle, undo and clear, a pass that runs while \<open>draw\<close> is false
  and ends without an exception leaves the whole state, and so the ledger, as it was,
  whatever the frame holds. This holds for the pinch variant and for the finger-up
  variant. (The session is sequential: a command runs between two passes.)
\<close>

theorem C7_no_change_while_drawing_disabled:
  "(exec step_V (init ift tt) evs = Inr s \<and> \<not> draw s \<and> step_V st s f = Inr (s', out) \<longrightarrow>
      lines s' = lines s) \<and>
   (exec step_F (init ift tt) evs = Inr s \<and> \<not> draw s \<and> step_F st s f = Inr (s', out) \<longrightarrow>
      lines s' = lines s)"
proof (intro conjI impI)
  assume a: "exec step_V (init ift tt) evs = Inr s \<and> \<not> draw s \<and> step_V st s f = Inr (s', out)"
  have "paused_inv s"
  proof (rule paused_inv_exec [of step_V "init ift tt" evs s])
    show "paused_inv (init ift tt)" by (rule paused_inv_init)
    from a show "exec step_V (init ift tt) evs = Inr s" by simp
  qed (rule paused_inv_step_V)
  with a show "lines s' = lines s" using step_V_paused by blast
next
  assume a: "exec step_F (init ift tt) evs = Inr s \<and> \<not> draw s \<and> step_F st s f = Inr (s', out)"
  have "paused_inv s"
  proof (rule paused_inv_exec [of step_F "init ift tt" evs s])
    show "paused_inv (init ift tt)" by (rule paused_inv_init)
    from a show "exec step_F (init ift tt) evs = Inr s" by simp
  qed (rule paused_inv_step_F)
  with a show "lines s' = lines s" using step_F_paused by blast
qed

theorem C7_no_change_while_drawing_disabled_witness:
  "exec step_V (init 8 4) [Frame settings_init (frame_with pinch_hand), ToggleDraw] =
     Inr ((init 8 4)\<lparr>lines := [[((305, 198), 10, (255, 0, 0))], []], draw := False\<rparr>) \<and>
   step_V settings_init
       ((init 8 4)\<lparr>lines := [[((305, 198), 10, (255, 0, 0))], []], draw := False\<rparr>)
       (frame_with pinch_hand) =
     Inr ((init 8 4)\<lparr>lines := [[((305, 198), 10, (255, 0, 0))], []], draw := False\<rparr>,
          \<lparr>drawn = [], data_signal = Some ([], 480, 640), error_signal = None,
           break = False\<rparr>) \<and>
   exec step_F (init 8 4) [Frame settings_init (frame_with level_hand), ToggleDraw] =
     Inr ((init 8 4)\<lparr>lines := [[((300, 195), 10, (255, 0, 0))], []], draw := False\<rparr>) \<and>
   step_F settings_init
       ((init 8 4)\<lparr>lines := [[((300, 195), 10, (255, 0, 0))], []], draw := False\<rparr>)
       (frame_with level_hand) =
     Inr ((init 8 4)\<lparr>lines := [[((300, 195), 10, (255, 0, 0))], []], draw := False\<rparr>,
          \<lparr>drawn = [Circle (300, 195) 50 (0, 0, 255) 10],
           data_signal = Some ([Circle (300, 195) 50 (0, 0, 255) 10], 480, 640),
           error_signal = None, break = False\<rparr>)"
proof -
  let ?sV = "(init 8 4)\<lparr>lines := [[((305, 198), 10, (255, 0, 0))], []], draw := False\<rparr>"
  let ?sF = "(init 8 4)\<lparr>lines := [[((300, 195), 10, (255, 0, 0))], []], draw := False\<rparr>"
  let ?oV = "\<lparr>drawn = [], data_signal = Some ([], 480, 640), error_signal = None,
              break = False\<rparr>"
  let ?oF = "\<lparr>drawn = [Circle (300, 195) 50 (0, 0, 255) 10],
              data_signal = Some ([Circle (300, 195) 50 (0, 0, 255) 10], 480, 640),
              error_signal = None, break = False\<rparr>"
  have eV: "exec step_V (init 8 4) [Frame settings_init (frame_with pinch_hand), ToggleDraw]
              = Inr ?sV"
    by (simp add: step_V_pinch_hand toggle_draw_def check_for_new_line_def current_line_def)
       (simp add: init_def)
  have eF: "exec step_F (init 8 4) [Frame settings_init (frame_with level_hand), ToggleDraw]
              = Inr ?sF"
    by (simp add: step_F_level_hand toggle_draw_def check_for_new_line_def current_line_def)
       (simp add: init_def)
  have pV: "step_V settings_init ?sV (frame_with pinch_hand) = Inr (?sV, ?oV)"
    by (simp add: frame_eval)
  have pF: "step_F settings_init ?sF (frame_with level_hand) = Inr (?sF, ?oF)"
    by (simp add: frame_eval)
  have dV: "\<not> draw ?sV" and dF: "\<not> draw ?sF" by simp_all
  from C7_no_change_while_drawing_disabled
         [of 8 4 "[Frame settings_init (frame_with pinch_hand), ToggleDraw]" ?sV
            settings_init "frame_with pinch_hand" ?sV ?oV] eV pV dV
  have "lines ?sV = lines ?sV" by blast
  with eV pV eF pF show ?thesis by simp
qed

subsection \<open>Stroke boundaries in the pinch variant\<close>

lemma pinch_frame_lines [simp]: "pinch_frame (s\<lparr>lines := l\<rparr>) f = pinch_frame s f"
  by (simp add: pinch_frame_def split: option.splits list.splits)

lemma release_frame_lines [simp]: "release_frame (s\<lparr>lines := l\<rparr>) f = release_frame s f"
  by (simp add: release_frame_def split: option.splits list.splits)

lemma step_V_pinch_frame:
  assumes "pinch_frame s f" and "draw s" and "lines s = ls @ [cur]"
  shows "\<exists>p out. step_V st s f = Inr (s\<lparr>lines := ls @ [cur @ [p]]\<rparr>, out) \<and> \<not> break out"
proof -
  from assms(1) obtain img landmarks rest where f: "success f" "snapshot f = Some img"
    "multi_hand_landmarks f = Some (landmarks # rest)"
    by (auto simp: pinch_frame_def split: option.splits list.splits)
  from assms(1) f have p: "check_if_pinched s landmarks = Inr (True, s)"
    by (simp add: pinch_frame_def check_if_pinched_def item_def)
  from assms(1) f obtain x y where
    c: "get_coordinates s landmarks (img_width img) (img_height img) = Inr (x, y)"
    by (simp add: pinch_frame_def get_coordinates_def item_def Let_def)
  from assms(3) have a: "add_line st s x y =
      Inr (s\<lparr>lines := ls @ [cur @ [((x, y), line_thickness st, line_color st)]]\<rparr>)"
    by (simp add: lines_add_line)
  from f p c a assms(2)
  have "\<exists>out. step_V st s f =
          Inr (s\<lparr>lines := ls @ [cur @ [((x, y), line_thickness st, line_color st)]]\<rparr>, out) \<and>
        \<not> break out"
    by (simp add: step_V_def Let_def)
  then show ?thesis by blast
qed

lemma step_V_release_frame:
  assumes "release_frame s f" and "lines s \<noteq> []"
  shows "\<exists>out. step_V st s f =
           Inr (if last (lines s) \<noteq> [] then s\<lparr>lines := lines s @ [[]]\<rparr> else s, out) \<and>
         \<not> break out"
proof -
  from assms(1) obtain img where f: "success f" "snapshot f = Some img"
    by (auto simp: release_frame_def)
  show ?thesis
  proof (cases "\<exists>landmarks rest. multi_hand_landmarks f = Some (landmarks # rest)")
    case False
    with f assms(2) show ?thesis
      by (auto simp: step_V_def Let_def check_for_new_line_conv
            split: option.splits list.splits)
  next
    case True
    then obtain landmarks rest where h: "multi_hand_landmarks f = Some (landmarks # rest)"
      by blast
    from assms h have p: "check_if_pinched s landmarks =
        Inr (False, if last (lines s) \<noteq> [] then s\<lparr>lines := lines s @ [[]]\<rparr> else s)"
      by (auto simp: release_frame_def check_if_pinched_def item_def check_for_new_line_conv)
    from assms(1) h obtain x y where
      c: "get_coordinates s landmarks (img_width img) (img_height img) = Inr (x, y)"
      by (simp add: release_frame_def get_coordinates_def item_def Let_def)
    from f h p c show ?thesis
      by (simp add: step_V_def Let_def)
  qed
qed

lemma run_V_pinch_frames:
  assumes "run_video_thread s" and "draw s"
  shows "list_all (\<lambda>(st, f). pinch_frame s f) fs \<Longrightarrow> lines s = ls @ [cur] \<Longrightarrow>
    \<exists>P outs. run_V s fs = Inr (s\<lparr>lines := ls @ [cur @ P]\<rparr>, outs) \<and>
      length P = length fs \<and> length outs = length fs \<and> list_all (\<lambda>out. \<not> break out) outs"
  using assms
proof (induction fs arbitrary: s cur)
  case Nil
  then show ?case by (simp add: run_V_def)
next
  case (Cons a fs)
  obtain st f where a: "a = (st, f)" by (cases a)
  from Cons.prems a have pf: "pinch_frame s f"
    and rest: "list_all (\<lambda>(st, f). pinch_frame s f) fs" by simp_all
  from step_V_pinch_frame [OF pf Cons.prems(4) Cons.prems(2), of st]
  obtain p out where st1: "step_V st s f = Inr (s\<lparr>lines := ls @ [cur @ [p]]\<rparr>, out)"
    and nb: "\<not> break out" by blast
  let ?s1 = "s\<lparr>lines := ls @ [cur @ [p]]\<rparr>"
  from rest have rest1: "list_all (\<lambda>(st, f). pinch_frame ?s1 f) fs" by simp
  have "\<exists>P outs. run_V ?s1 fs = Inr (?s1\<lparr>lines := ls @ [(cur @ [p]) @ P]\<rparr>, outs) \<and>
      length P = length fs \<and> length outs = length fs \<and> list_all (\<lambda>out. \<not> break out) outs"
    using Cons.prems(3,4) by (intro Cons.IH [OF rest1]) simp_all
  then obtain P outs where r: "run_V ?s1 fs = Inr (s\<lparr>lines := ls @ [cur @ p # P]\<rparr>, outs)"
    and l: "length P = length fs" "length outs = length fs"
      "list_all (\<lambda>out. \<not> break out) outs"
    by auto
  from a st1 nb r Cons.prems(3)
  have "run_V s (a # fs) = Inr (s\<lparr>lines := ls @ [cur @ (p # P)]\<rparr>, out # outs)"
    by (simp add: run_V_def)
  with l nb show ?case
    by (intro exI [of _ "p # P"] exI [of _ "out # outs"]) simp
qed

lemma run_V_release_frames:
  assumes "run_video_thread s"
  shows "list_all (\<lambda>(st, f). release_frame s f) rs \<Longrightarrow> lines s \<noteq> [] \<Longrightarrow>
    \<exists>outs. run_V s rs =
        Inr (if rs \<noteq> [] \<and> last (lines s) \<noteq> [] then s\<lparr>lines := lines s @ [[]]\<rparr> else s, outs) \<and>
      length outs = length rs \<and> list_all (\<lambda>out. \<not> break out) outs"
  using assms
proof (induction rs arbitrary: s)
  case Nil
  then show ?case by (simp add: run_V_def)
next
  case (Cons a rs)
  obtain st f where a: "a = (st, f)" by (cases a)
  from Cons.prems a have rf: "release_frame s f"
    and rest: "list_all (\<lambda>(st, f). release_frame s f) rs" by simp_all
  let ?s1 = "if last (lines s) \<noteq> [] then s\<lparr>lines := lines s @ [[]]\<rparr> else s"
  from step_V_release_frame [OF rf Cons.prems(2), of st]
  obtain out where st1: "step_V st s f = Inr (?s1, out)" and nb: "\<not> break out" by blast
  from rest have rest1: "list_all (\<lambda>(st, f). release_frame ?s1 f) rs" by simp
  from Cons.prems(2) have ne: "lines ?s1 \<noteq> []" and la: "last (lines ?s1) = []"
    and rv: "run_video_thread ?s1" using Cons.prems(3) by simp_all
  from Cons.IH [OF rest1 ne rv] la
  obtain outs where r: "run_V ?s1 rs = Inr (?s1, outs)"
    and l: "length outs = length rs" "list_all (\<lambda>out. \<not> break out) outs"
    by (auto split: if_splits)
  from a st1 nb r Cons.prems(3) have "run_V s (a # rs) = Inr (?s1, out # outs)"
    by (simp add: run_V_def)
  with l nb show ?case by simp
qed

lemma run_loop_append:
  "run_loop step s xs = Inr (s1, o1) \<Longrightarrow> length o1 = length xs \<Longrightarrow>
   list_all (\<lambda>out. \<not> break out) o1 \<Longrightarrow>
   run_loop step s (xs @ ys) =
     (case run_loop step s1 ys of Inl e \<Rightarrow> Inl e | Inr (s2, o2) \<Rightarrow> Inr (s2, o1 @ o2))"
proof (induction xs arbitrary: s o1)
  case Nil
  then show ?case by (simp split: sum.splits)
next
  case (Cons a xs)
  obtain st f where a: "a = (st, f)" by (cases a)
  from Cons.prems(1,2) a have rv: "run_video_thread s" by (auto split: if_splits)
  with Cons.prems(1) a obtain s' out where st1: "step st s f = Inr (s', out)"
    by (auto split: sum.splits)
  show ?case
  proof (cases "break out")
    case True
    with Cons.prems a rv st1 show ?thesis by auto
  next
    case False
    with Cons.prems(1) a rv st1 obtain outs where r: "run_loop step s' xs = Inr (s1, outs)"
      and o1: "o1 = out # outs"
      by (auto split: sum.splits)
    from Cons.prems(2,3) o1 have "length outs = length xs"
      "list_all (\<lambda>out. \<not> break out) outs" by simp_all
    from Cons.IH [OF r this] a rv st1 False o1 show ?thesis
      by (simp split: sum.splits)
  qed
qed

text \<open>
  Claim C6 (pinch variant). Let the loop run, with drawing enabled, over pinched frames
  \<open>fs1\<close> (at least one), then frames \<open>rs\<close> (at least one) that show no hand or a hand that is not
  pinched, then pinched frames \<open>fs2\<close>. No pass raises. The points \<open>P1\<close> recorded during
  \<open>fs1\<close>, one per frame, extend the stroke that was current at the start; after \<open>rs\<close> a new
  empty stroke follows it; the points \<open>P2\<close> recorded during \<open>fs2\<close>, one per frame, all lie in
  that new stroke, the one after the stroke that holds \<open>P1\<close>.
\<close>

theorem C6_new_stroke_after_release:
  assumes "run_video_thread s" and "draw s" and "lines s = ls @ [cur]"
    and "fs1 \<noteq> []" and "list_all (\<lambda>(st, f). pinch_frame s f) fs1"
    and "rs \<noteq> []" and "list_all (\<lambda>(st, f). release_frame s f) rs"
    and "list_all (\<lambda>(st, f). pinch_frame s f) fs2"
  shows "\<exists>P1 P2 o1 o2 o3.
           length P1 = length fs1 \<and> length P2 = length fs2 \<and>
           run_V s fs1 = Inr (s\<lparr>lines := ls @ [cur @ P1]\<rparr>, o1) \<and>
           run_V s (fs1 @ rs) = Inr (s\<lparr>lines := ls @ [cur @ P1, []]\<rparr>, o2) \<and>
           run_V s (fs1 @ rs @ fs2) = Inr (s\<lparr>lines := ls @ [cur @ P1, P2]\<rparr>, o3)"
proof -
  from run_V_pinch_frames [OF assms(1,2,5,3)]
  obtain P1 o1 where r1: "run_V s fs1 = Inr (s\<lparr>lines := ls @ [cur @ P1]\<rparr>, o1)"
    and l1: "length P1 = length fs1" "length o1 = length fs1"
      "list_all (\<lambda>out. \<not> break out) o1"
    by blast
  let ?s1 = "s\<lparr>lines := ls @ [cur @ P1]\<rparr>"
  from l1(1) assms(4) have P1: "cur @ P1 \<noteq> []" by auto
  have "\<exists>outs. run_V ?s1 rs =
        Inr (if rs \<noteq> [] \<and> last (lines ?s1) \<noteq> [] then ?s1\<lparr>lines := lines ?s1 @ [[]]\<rparr> else ?s1, outs) \<and>
      length outs = length rs \<and> list_all (\<lambda>out. \<not> break out) outs"
    using assms(1,7) by (intro run_V_release_frames) simp_all
  with assms(6) P1 obtain o2 where r2: "run_V ?s1 rs = Inr (s\<lparr>lines := ls @ [cur @ P1, []]\<rparr>, o2)"
    and l2: "length o2 = length rs" "list_all (\<lambda>out. \<not> break out) o2"
    by auto
  let ?s2 = "s\<lparr>lines := ls @ [cur @ P1, []]\<rparr>"
  have "\<exists>P outs. run_V ?s2 fs2 = Inr (?s2\<lparr>lines := (ls @ [cur @ P1]) @ [[] @ P]\<rparr>, outs) \<and>
      length P = length fs2 \<and> length outs = length fs2 \<and>
      list_all (\<lambda>out. \<not> break out) outs"
    using assms(1,2,8) by (intro run_V_pinch_frames) simp_all
  then obtain P2 o3 where r3: "run_V ?s2 fs2 = Inr (s\<lparr>lines := ls @ [cur @ P1, P2]\<rparr>, o3)"
    and l3: "length P2 = length fs2"
    by auto
  from run_loop_append [of step_V s fs1 ?s1 o1 rs] r1 l1 r2
  have r12: "run_V s (fs1 @ rs) = Inr (?s2, o1 @ o2)"
    by (simp add: run_V_def)
  from run_loop_append [of step_V s "fs1 @ rs" ?s2 "o1 @ o2" fs2] r12 l1 l2 r3
  have "run_V s (fs1 @ rs @ fs2) = Inr (s\<lparr>lines := ls @ [cur @ P1, P2]\<rparr>, (o1 @ o2) @ o3)"
    by (simp add: run_V_def)
  with r1 r12 l1(1) l3 show ?thesis by blast
qed

theorem C6_new_stroke_after_release_witness:
  "\<exists>P1 P2 o1 o2 o3.
     length P1 = length [(settings_init, frame_with pinch_hand)] \<and>
     length P2 = length [(settings_init, frame_with pinch_hand)] \<and>
     run_V (init 8 4) [(settings_init, frame_with pinch_hand)] =
       Inr ((init 8 4)\<lparr>lines := [] @ [[] @ P1]\<rparr>, o1) \<and>
     run_V (init 8 4)
         ([(settings_init, frame_with pinch_hand)] @ [(settings_init, frame_with level_hand)]) =
       Inr ((init 8 4)\<lparr>lines := [] @ [[] @ P1, []]\<rparr>, o2) \<and>
     run_V (init 8 4)
         ([(settings_init, frame_with pinch_hand)] @ [(settings_init, frame_with level_hand)] @
          [(settings_init, frame_with pinch_hand)]) =
       Inr ((init 8 4)\<lparr>lines := [] @ [[] @ P1, P2]\<rparr>, o3)"
proof -
  have a: "run_video_thread (init 8 4)" "draw (init 8 4)" "lines (init 8 4) = [] @ [[]]"
    by (simp_all add: init_def)
  have p: "list_all (\<lambda>(st, f). pinch_frame (init 8 4) f) [(settings_init, frame_with pinch_hand)]"
    by (simp add: pinch_frame_def frame_with_def pinch_hand_def level_hand_def init_def)
  have r: "list_all (\<lambda>(st, f). release_frame (init 8 4) f)
             [(settings_init, frame_with level_hand)]"
    by (simp add: release_frame_def frame_with_def level_hand_def init_def)
  have n: "[(settings_init, frame_with pinch_hand)] \<noteq> []"
    "[(settings_init, frame_with level_hand)] \<noteq> []" by simp_all
  from C6_new_stroke_after_release [OF a n(1) p n(2) r p] show ?thesis .
qed

end
